theory Spec2Isabelle
  imports Complex_Main "HOL-Library.Word"
begin

section \<open>Go integer arithmetic\<close>

text \<open>
  Values of Go's type \<open>int\<close> are modelled by the mathematical integers: addition and
  multiplication are the exact ones, so every statement below is about the arithmetic the
  code performs in the range where the machine integers do not wrap around.
  Go's \<open>/\<close> truncates towards zero and \<open>%\<close> takes the sign of the dividend
  (\<open>x = (x / y) * y + x % y\<close>); both panic with a run-time error when the divisor is zero.
\<close>

datatype go_panic = DivideByZero

definition tquot :: "int \<Rightarrow> int \<Rightarrow> int" where
  "tquot a b = (if (a < 0) = (b < 0) then \<bar>a\<bar> div \<bar>b\<bar> else - (\<bar>a\<bar> div \<bar>b\<bar>))"

definition trem :: "int \<Rightarrow> int \<Rightarrow> int" where
  "trem a b = a - tquot a b * b"

definition go_div :: "int \<Rightarrow> int \<Rightarrow> go_panic + int" where
  "go_div a b = (if b = 0 then Inl DivideByZero else Inr (tquot a b))"

definition go_mod :: "int \<Rightarrow> int \<Rightarrow> go_panic + int" where
  "go_mod a b = (if b = 0 then Inl DivideByZero else Inr (trem a b))"

text \<open>Sequencing of computations that may panic: the first panic ends the call.\<close>

definition and_then :: "go_panic + 'a \<Rightarrow> ('a \<Rightarrow> go_panic + 'b) \<Rightarrow> go_panic + 'b" where
  "and_then r f = (case r of Inl p \<Rightarrow> Inl p | Inr v \<Rightarrow> f v)"

section \<open>The coordinate mappers\<close>

text \<open>The error value built by \<open>fmt.Errorf("invalid cell number: %d", cellNumber)\<close>.\<close>

datatype error = InvalidCellNumber int

text \<open>
  \<open>CellToPixel\<close> returns the triple \<open>(pixelX, pixelY, err)\<close>; \<open>err\<close> is \<open>nil\<close>
  (\<open>None\<close>) on success.
\<close>

definition CellToPixel :: "int \<Rightarrow> int \<Rightarrow> int \<Rightarrow> go_panic + (int \<times> int \<times> error option)" where
  "CellToPixel cellNumber imageWidth cellSize =
     (if cellNumber < 0 then Inr (0, 0, Some (InvalidCellNumber cellNumber))
      else
        and_then (go_div imageWidth cellSize) (\<lambda>q.
        let columnsPerRow = (if q = 0 then 1 else q) in
        and_then (go_mod cellNumber columnsPerRow) (\<lambda>gridX.
        and_then (go_div cellNumber columnsPerRow) (\<lambda>gridY.
        and_then (go_div cellSize 2) (\<lambda>halfX.
        let pixelX = gridX * cellSize + halfX in
        and_then (go_div cellSize 2) (\<lambda>halfY.
        let pixelY = gridY * cellSize + halfY in
        Inr (pixelX, pixelY, None)))))))"

definition PixelToCell :: "int \<Rightarrow> int \<Rightarrow> int \<Rightarrow> int \<Rightarrow> go_panic + int" where
  "PixelToCell x y imageWidth cellSize =
     and_then (go_div imageWidth cellSize) (\<lambda>q.
     let columnsPerRow = (if q = 0 then 1 else q) in
     and_then (go_div x cellSize) (\<lambda>gridX.
     and_then (go_div y cellSize) (\<lambda>gridY.
     Inr (gridY * columnsPerRow + gridX))))"

subsection \<open>The formulas of the specification\<close>




text \<open>What the code derives: the quotient itself, replaced by 1 only when it is 0.\<close>

definition columnsPerRow_of :: "int \<Rightarrow> int \<Rightarrow> int" where
  "columnsPerRow_of imageWidth cellSize =
     (let q = tquot imageWidth cellSize in if q = 0 then 1 else q)"

section \<open>Loops\<close>

text \<open>
  A Go statement \<open>for i := init; cond(i); i = post(i) { body }\<close> whose body does not
  assign to \<open>i\<close>. The loop need not end (a cell size of 0 makes the renderer's loops spin
  for ever), so the result is an option: \<open>None\<close> is a run that never returns.
\<close>

partial_function (option) for_loop ::
  "(int \<Rightarrow> bool) \<Rightarrow> (int \<Rightarrow> int) \<Rightarrow> (int \<Rightarrow> 's \<Rightarrow> 's option) \<Rightarrow> int \<Rightarrow> 's \<Rightarrow> 's option" where
  "for_loop cond post body i s =
     (if cond i then Option.bind (body i s) (\<lambda>s'. for_loop cond post body (post i) s')
      else Some s)"

declare for_loop.simps [code]

text \<open>
  \<open>for i, a := range xs { body }\<close> over a slice, or over a string of one-byte characters
  (where the byte offset Go hands out is the position).
\<close>

fun range_loop :: "(int \<Rightarrow> 'a \<Rightarrow> 's \<Rightarrow> 's option) \<Rightarrow> int \<Rightarrow> 'a list \<Rightarrow> 's \<Rightarrow> 's option" where
  "range_loop body i [] s = Some s"
| "range_loop body i (a # as) s = Option.bind (body i a s) (\<lambda>s'. range_loop body (i + 1) as s')"

section \<open>Images and configuration\<close>

text \<open>
  An image is its bounds and its pixels. Colours are kept abstract (the conversion into the
  canvas's colour model is not modelled). \<open>RGBA_Set\<close> is \<open>(*image.RGBA).Set\<close>, which
  ignores a point outside the bounds.
\<close>

record Rectangle =
  MinX :: int
  MinY :: int
  MaxX :: int
  MaxY :: int

definition In_rect :: "int \<times> int \<Rightarrow> Rectangle \<Rightarrow> bool" where
  "In_rect p r = (MinX r \<le> fst p \<and> fst p < MaxX r \<and> MinY r \<le> snd p \<and> snd p < MaxY r)"

record 'c image =
  Rect :: Rectangle
  Pix :: "int \<times> int \<Rightarrow> 'c"

definition RGBA_Set :: "'c image \<Rightarrow> int \<Rightarrow> int \<Rightarrow> 'c \<Rightarrow> 'c image" where
  "RGBA_Set img x y c =
     (if In_rect (x, y) (Rect img) then img\<lparr>Pix := (Pix img)((x, y) := c)\<rparr> else img)"

datatype color = RGBA "8 word" "8 word" "8 word" "8 word"

record 'c Config =
  CellSize :: int
  GridColor :: 'c
  NumberColor :: 'c
  NumberBG :: 'c
  LineWidth :: int
  NumberScale :: int

definition DefaultConfig :: "color Config" where
  "DefaultConfig =
     \<lparr>CellSize = 100,
      GridColor = RGBA 0 255 255 100,
      NumberColor = RGBA 255 255 255 255,
      NumberBG = RGBA 0 0 0 200,
      LineWidth = 2,
      NumberScale = 3\<rparr>"

section \<open>Digit glyphs and labels\<close>

definition patterns :: "(char \<times> string list) list" where
  "patterns =
     [(CHR ''0'', ['' ### '', ''#   #'', ''#   #'', ''#   #'', ''#   #'', ''#   #'', '' ### '']),
      (CHR ''1'', [''  #  '', '' ##  '', ''  #  '', ''  #  '', ''  #  '', ''  #  '', ''#####'']),
      (CHR ''2'', ['' ### '', ''#   #'', ''    #'', ''   # '', ''  #  '', '' #   '', ''#####'']),
      (CHR ''3'', ['' ### '', ''#   #'', ''    #'', ''  ## '', ''    #'', ''#   #'', '' ### '']),
      (CHR ''4'', [''   # '', ''  ## '', '' # # '', ''#  # '', ''#####'', ''   # '', ''   # '']),
      (CHR ''5'', [''#####'', ''#    '', ''#    '', ''#### '', ''    #'', ''#   #'', '' ### '']),
      (CHR ''6'', ['' ### '', ''#   #'', ''#    '', ''#### '', ''#   #'', ''#   #'', '' ### '']),
      (CHR ''7'', [''#####'', ''    #'', ''   # '', ''  #  '', '' #   '', '' #   '', '' #   '']),
      (CHR ''8'', ['' ### '', ''#   #'', ''#   #'', '' ### '', ''#   #'', ''#   #'', '' ### '']),
      (CHR ''9'', ['' ### '', ''#   #'', ''#   #'', '' ####'', ''    #'', ''#   #'', '' ### ''])]"

definition getDigitPattern :: "char \<Rightarrow> string list" where
  "getDigitPattern digit = (case map_of patterns digit of Some pattern \<Rightarrow> pattern | None \<Rightarrow> [])"

text \<open>\<open>fmt.Sprintf("%d", number)\<close>: the decimal digits, after a minus sign when negative.\<close>

fun decimal :: "nat \<Rightarrow> string" where
  "decimal n =
     (if n < 10 then [''0123456789'' ! n]
      else decimal (n div 10) @ [''0123456789'' ! (n mod 10)])"

definition Sprintf_d :: "int \<Rightarrow> string" where
  "Sprintf_d number =
     (if number < 0 then CHR ''-'' # decimal (nat (- number)) else decimal (nat number))"

text \<open>The clipped pixel write that both drawing phases of a label perform.\<close>

definition set_clipped :: "'c image \<Rightarrow> int \<Rightarrow> int \<Rightarrow> 'c \<Rightarrow> 'c image" where
  "set_clipped img px py c =
     (if px \<ge> 0 \<and> py \<ge> 0 \<and> px < MaxX (Rect img) \<and> py < MaxY (Rect img)
      then RGBA_Set img px py c else img)"

definition drawLargeNumber :: "'c image \<Rightarrow> int \<Rightarrow> int \<Rightarrow> int \<Rightarrow> 'c Config \<Rightarrow> 'c image option" where
  "drawLargeNumber img x y number config =
     (let numStr = Sprintf_d number;
          digitWidth = 5 * NumberScale config;
          digitHeight = 7 * NumberScale config;
          spacing = 2 * NumberScale config;
          padding = 2 * NumberScale config;
          totalWidth = int (length numStr) * digitWidth + (int (length numStr) - 1) * spacing
                       + 2 * padding;
          totalHeight = digitHeight + 2 * padding;
          startX = x - tquot totalWidth 2;
          startY = y - tquot totalHeight 2
      in
        Option.bind
          (for_loop (\<lambda>dx. dx < totalWidth) (\<lambda>dx. dx + 1)
             (\<lambda>dx. for_loop (\<lambda>dy. dy < totalHeight) (\<lambda>dy. dy + 1)
                (\<lambda>dy img. Some (set_clipped img (startX + dx) (startY + dy) (NumberBG config)))
                0)
             0 img)
          (range_loop
             (\<lambda>i digit.
                let pattern = getDigitPattern digit;
                    digitX = startX + padding + i * (digitWidth + spacing);
                    digitY = startY + padding
                in range_loop
                     (\<lambda>row line. range_loop
                        (\<lambda>col char img.
                           if char = CHR ''#'' then
                             for_loop (\<lambda>sx. sx < NumberScale config) (\<lambda>sx. sx + 1)
                               (\<lambda>sx. for_loop (\<lambda>sy. sy < NumberScale config) (\<lambda>sy. sy + 1)
                                  (\<lambda>sy img. Some (set_clipped img
                                     (digitX + col * NumberScale config + sx)
                                     (digitY + row * NumberScale config + sy)
                                     (NumberColor config)))
                                  0)
                               0 img
                           else Some img)
                        0 line)
                     0 pattern)
             0 numStr))"

section \<open>The grid renderer\<close>

text \<open>
  The two line-drawing loops of \<open>AddGrid\<close>. The pixel write is a parameter, so that the
  same loops can draw on a canvas (\<open>RGBA_Set\<close>) or list the coordinates they write.
\<close>

definition verticalLines ::
  "(int \<Rightarrow> int \<Rightarrow> 's \<Rightarrow> 's) \<Rightarrow> int \<Rightarrow> int \<Rightarrow> int \<Rightarrow> int \<Rightarrow> 's \<Rightarrow> 's option" where
  "verticalLines put cellSize lineWidth width height =
     for_loop (\<lambda>x. x < width) (\<lambda>x. x + cellSize)
       (\<lambda>x. for_loop (\<lambda>y. y < height) (\<lambda>y. y + 1)
          (\<lambda>y. for_loop (\<lambda>i. i < lineWidth \<and> x - i \<ge> 0) (\<lambda>i. i + 1)
             (\<lambda>i s. Some (put (x - i) y s))
             0)
          0)
       cellSize"

definition horizontalLines ::
  "(int \<Rightarrow> int \<Rightarrow> 's \<Rightarrow> 's) \<Rightarrow> int \<Rightarrow> int \<Rightarrow> int \<Rightarrow> int \<Rightarrow> 's \<Rightarrow> 's option" where
  "horizontalLines put cellSize lineWidth width height =
     for_loop (\<lambda>y. y < height) (\<lambda>y. y + cellSize)
       (\<lambda>y. for_loop (\<lambda>x. x < width) (\<lambda>x. x + 1)
          (\<lambda>x. for_loop (\<lambda>i. i < lineWidth \<and> y - i \<ge> 0) (\<lambda>i. i + 1)
             (\<lambda>i s. Some (put x (y - i) s))
             0)
          0)
       cellSize"

definition drawLines :: "'c Config \<Rightarrow> 'c image \<Rightarrow> 'c image option" where
  "drawLines config overlay =
     (let width = MaxX (Rect overlay); height = MaxY (Rect overlay);
          put = (\<lambda>x y ov. RGBA_Set ov x y (GridColor config))
      in Option.bind
           (verticalLines put (CellSize config) (LineWidth config) width height overlay)
           (horizontalLines put (CellSize config) (LineWidth config) width height))"

text \<open>
  The numbering loop of \<open>AddGrid\<close>; the state is the canvas and \<open>cellNumber\<close>. The call
  that draws a label is a parameter: \<open>AddGrid\<close> passes \<open>drawLargeNumber\<close>.
\<close>

definition numberCells ::
  "(int \<Rightarrow> int \<Rightarrow> int \<Rightarrow> 's \<Rightarrow> 's option) \<Rightarrow> int \<Rightarrow> int \<Rightarrow> int \<Rightarrow> 's \<times> int \<Rightarrow> ('s \<times> int) option" where
  "numberCells label cellSize width height =
     for_loop (\<lambda>gridY. gridY * cellSize < height) (\<lambda>gridY. gridY + 1)
       (\<lambda>gridY. for_loop (\<lambda>gridX. gridX * cellSize < width) (\<lambda>gridX. gridX + 1)
          (\<lambda>gridX (overlay, cellNumber).
             let centerX = gridX * cellSize + tquot cellSize 2;
                 centerY = gridY * cellSize + tquot cellSize 2
             in Option.bind
                  (if centerX < width \<and> centerY < height
                   then label centerX centerY cellNumber overlay else Some overlay)
                  (\<lambda>overlay. Some (overlay, cellNumber + 1)))
          0)
       0"

text \<open>\<open>AddGrid\<close> up to the canvas it hands to the PNG encoder.\<close>

definition AddGrid_overlay :: "'c image \<Rightarrow> 'c Config \<Rightarrow> 'c image option" where
  "AddGrid_overlay img config =
     (let width = MaxX (Rect img); height = MaxY (Rect img);
          overlay = \<lparr>Rect = Rect img, Pix = Pix img\<rparr>
      in Option.bind (drawLines config overlay) (\<lambda>overlay.
         map_option fst
           (numberCells (\<lambda>x y n ov. drawLargeNumber ov x y n config)
              (CellSize config) width height (overlay, 0))))"

text \<open>
  The labels the numbering loop asks for, in order, as \<open>(centerX, centerY, cellNumber)\<close>,
  and the number of cells it has counted when it ends.
\<close>

definition labelCalls :: "int \<Rightarrow> int \<Rightarrow> int \<Rightarrow> ((int \<times> int \<times> int) list \<times> int) option" where
  "labelCalls cellSize width height =
     numberCells (\<lambda>x y n calls. Some (calls @ [(x, y, n)])) cellSize width height ([], 0)"

text \<open>The coordinates the line-drawing loops write, in order.\<close>

definition lineWrites :: "int \<Rightarrow> int \<Rightarrow> int \<Rightarrow> int \<Rightarrow> (int \<times> int) list option" where
  "lineWrites cellSize lineWidth width height =
     Option.bind
       (verticalLines (\<lambda>x y ws. ws @ [(x, y)]) cellSize lineWidth width height [])
       (horizontalLines (\<lambda>x y ws. ws @ [(x, y)]) cellSize lineWidth width height)"

section \<open>Closed forms used in the proofs\<close>

text \<open>
  The values a loop variable takes in \<open>for x := x0; x < n; x += d\<close> when \<open>d\<close> is positive.
\<close>

function strides :: "int \<Rightarrow> int \<Rightarrow> int \<Rightarrow> int list" where
  "strides x d n = (if x < n \<and> 0 < d then x # strides (x + d) d n else [])"
  by pat_completeness auto
termination
  by (relation "measure (\<lambda>(x, d, n). nat (n - x))") auto

text \<open>
  The coordinates written by the vertical and by the horizontal line loop, in the order
  of the writes.
\<close>

definition vcoords :: "int \<Rightarrow> int \<Rightarrow> int \<Rightarrow> int \<Rightarrow> (int \<times> int) list" where
  "vcoords cellSize lineWidth width height =
     concat (map (\<lambda>x. concat (map (\<lambda>y. map (\<lambda>i. (x - i, y)) [0..min lineWidth (x + 1) - 1])
                                  [0..height - 1]))
                 (strides cellSize cellSize width))"

definition hcoords :: "int \<Rightarrow> int \<Rightarrow> int \<Rightarrow> int \<Rightarrow> (int \<times> int) list" where
  "hcoords cellSize lineWidth width height =
     concat (map (\<lambda>y. concat (map (\<lambda>x. map (\<lambda>i. (x, y - i)) [0..min lineWidth (y + 1) - 1])
                                  [0..width - 1]))
                 (strides cellSize cellSize height))"

text \<open>
  The background rectangle of a label, from the size computation at the head of
  \<open>drawLargeNumber\<close>, and the frame condition: outside a region the pixels of two
  images agree.
\<close>

definition labelWidth :: "int \<Rightarrow> 'c Config \<Rightarrow> int" where
  "labelWidth number config =
     int (length (Sprintf_d number)) * (5 * NumberScale config)
     + (int (length (Sprintf_d number)) - 1) * (2 * NumberScale config)
     + 2 * (2 * NumberScale config)"

definition labelHeight :: "'c Config \<Rightarrow> int" where
  "labelHeight config = 7 * NumberScale config + 2 * (2 * NumberScale config)"

definition in_label_box :: "int \<Rightarrow> int \<Rightarrow> int \<Rightarrow> 'c Config \<Rightarrow> int \<times> int \<Rightarrow> bool" where
  "in_label_box x y number config p =
     (let startX = x - tquot (labelWidth number config) 2;
          startY = y - tquot (labelHeight config) 2
      in startX \<le> fst p \<and> fst p < startX + labelWidth number config
         \<and> startY \<le> snd p \<and> snd p < startY + labelHeight config)"

definition in_canvas :: "'c image \<Rightarrow> int \<times> int \<Rightarrow> bool" where
  "in_canvas img p =
     (0 \<le> fst p \<and> fst p < MaxX (Rect img) \<and> 0 \<le> snd p \<and> snd p < MaxY (Rect img)
      \<and> In_rect p (Rect img))"

definition only_changed_in :: "(int \<times> int \<Rightarrow> bool) \<Rightarrow> 'c image \<Rightarrow> 'c image \<Rightarrow> bool" where
  "only_changed_in region img img' =
     (Rect img' = Rect img
      \<and> (\<forall>p. \<not> (in_canvas img p \<and> region p) \<longrightarrow> Pix img' p = Pix img p))"

section \<open>Properties of the arithmetic\<close>

lemma tquot_nonneg: "0 \<le> a \<Longrightarrow> 0 < b \<Longrightarrow> tquot a b = a div b"
  by (simp add: tquot_def)


lemma columnsPerRow_of_nonzero: "columnsPerRow_of w s \<noteq> 0"
  by (simp add: columnsPerRow_of_def Let_def)


lemma CellToPixel_unfold:
  assumes "0 \<le> c" "s \<noteq> 0"
  shows "CellToPixel c w s =
           Inr (trem c (columnsPerRow_of w s) * s + tquot s 2,
                tquot c (columnsPerRow_of w s) * s + tquot s 2, None)"
  using assms
  by (simp add: CellToPixel_def go_div_def go_mod_def and_then_def columnsPerRow_of_def Let_def)

lemma PixelToCell_unfold:
  assumes "s \<noteq> 0"
  shows "PixelToCell x y w s = Inr (tquot y s * columnsPerRow_of w s + tquot x s)"
  using assms
  by (simp add: PixelToCell_def go_div_def and_then_def columnsPerRow_of_def Let_def)



section \<open>Reasoning about the loops\<close>

lemma for_loop_rule:
  fixes m :: "int \<Rightarrow> nat"
  assumes init: "I i s"
    and step: "\<And>i s. I i s \<Longrightarrow> cond i \<Longrightarrow>
                 m (post i) < m i \<and> (\<exists>s'. body i s = Some s' \<and> I (post i) s')"
  shows "\<exists>j s'. for_loop cond post body i s = Some s' \<and> I j s' \<and> \<not> cond j"
  using init
proof (induction "m i" arbitrary: i s rule: less_induct)
  case less
  show ?case
  proof (cases "cond i")
    case False
    with less.prems show ?thesis
      by (subst for_loop.simps) auto
  next
    case True
    from step [OF less.prems True] obtain s1
      where dec: "m (post i) < m i" and b: "body i s = Some s1" and inv: "I (post i) s1"
      by blast
    from less.hyps [OF dec inv] obtain j s2
      where "for_loop cond post body (post i) s1 = Some s2" "I j s2" "\<not> cond j"
      by blast
    with True b show ?thesis
      by (subst for_loop.simps) auto
  qed
qed

lemma for_loop_counted_inv:
  assumes init: "P s"
    and step: "\<And>i s. P s \<Longrightarrow> lo \<le> i \<Longrightarrow> i < n \<Longrightarrow> \<exists>s'. body i s = Some s' \<and> P s'"
  shows "\<exists>s'. for_loop (\<lambda>i. i < n) (\<lambda>i. i + 1) body lo s = Some s' \<and> P s'"
proof -
  have "\<exists>j s'. for_loop (\<lambda>i. i < n) (\<lambda>i. i + 1) body lo s = Some s' \<and> (lo \<le> j \<and> P s') \<and> \<not> j < n"
  proof (rule for_loop_rule [where m = "\<lambda>i. nat (n - i)" and I = "\<lambda>i s. lo \<le> i \<and> P s"])
    show "lo \<le> lo \<and> P s" using init by simp
  next
    fix i s
    assume "lo \<le> i \<and> P s" and "i < n"
    with step [of s i]
    show "nat (n - (i + 1)) < nat (n - i) \<and> (\<exists>s'. body i s = Some s' \<and> lo \<le> i + 1 \<and> P s')"
      by auto
  qed
  then show ?thesis by blast
qed

lemma range_loop_inv:
  assumes init: "P s"
    and step: "\<And>k s. P s \<Longrightarrow> k < length xs \<Longrightarrow>
                 \<exists>s'. body (i + int k) (xs ! k) s = Some s' \<and> P s'"
  shows "\<exists>s'. range_loop body i xs s = Some s' \<and> P s'"
  using assms
proof (induction xs arbitrary: i s)
  case Nil
  then show ?case by simp
next
  case (Cons a as)
  from Cons.prems(2) [of s 0] Cons.prems(1) obtain s1
    where b: "body i a s = Some s1" and p: "P s1" by auto
  have "\<exists>s'. range_loop body (i + 1) as s1 = Some s' \<and> P s'"
  proof (rule Cons.IH [OF p])
    fix k s
    assume "P s" "k < length as"
    with Cons.prems(2) [of s "Suc k"]
    show "\<exists>s'. body (i + 1 + int k) (as ! k) s = Some s' \<and> P s'"
      by (simp add: ac_simps)
  qed
  with b show ?case by simp
qed

lemma for_loop_counted:
  assumes body: "\<And>i s. lo \<le> i \<Longrightarrow> i < n \<Longrightarrow> body i s = Some (f i s)"
  shows "for_loop (\<lambda>i. i < n) (\<lambda>i. i + 1) body lo s = Some (fold f [lo..n - 1] s)"
  using body
proof (induction "nat (n - lo)" arbitrary: lo s)
  case 0
  then have "\<not> lo < n" by simp
  then show ?case by (subst for_loop.simps) simp
next
  case (Suc k)
  then have lt: "lo < n" by linarith
  have "for_loop (\<lambda>i. i < n) (\<lambda>i. i + 1) body (lo + 1) (f lo s)
          = Some (fold f [lo + 1..n - 1] (f lo s))"
  proof (rule Suc.hyps(1))
    show "k = nat (n - (lo + 1))" using Suc.hyps(2) by linarith
  next
    fix i s assume "lo + 1 \<le> i" "i < n"
    then show "body i s = Some (f i s)" using Suc.prems by simp
  qed
  moreover have "[lo..n - 1] = lo # [lo + 1..n - 1]"
    using lt by (simp add: upto_rec1)
  ultimately show ?case
    using lt Suc.prems [of lo s] by (subst for_loop.simps) simp
qed

declare strides.simps [simp del]

declare decimal.simps [simp del]

lemma for_loop_strided_pure:
  "0 < d \<Longrightarrow>
   for_loop (\<lambda>x. x < n) (\<lambda>x. x + d) (\<lambda>x s. Some (f x s)) x0 s
     = Some (fold f (strides x0 d n) s)"
proof (induction x0 d n arbitrary: s rule: strides.induct)
  case (1 x d n)
  show ?case
  proof (cases "x < n")
    case True
    with 1 show ?thesis
      by (subst for_loop.simps, subst strides.simps) simp
  next
    case False
    then show ?thesis
      by (subst for_loop.simps, subst strides.simps) simp
  qed
qed

lemma for_loop_strided:
  assumes d: "0 < d" and body: "\<And>x s. body x s = Some (f x s)"
  shows "for_loop (\<lambda>x. x < n) (\<lambda>x. x + d) body x0 s = Some (fold f (strides x0 d n) s)"
proof -
  have "body = (\<lambda>x s. Some (f x s))" by (intro ext) (rule body)
  then show ?thesis using d by (simp add: for_loop_strided_pure)
qed

lemma set_strides:
  "0 < d \<Longrightarrow> set (strides x0 d n) = {x. x0 \<le> x \<and> x < n \<and> d dvd (x - x0)}"
proof (induction x0 d n rule: strides.induct)
  case (1 x d n)
  show ?case
  proof (cases "x < n")
    case False
    then show ?thesis by (subst strides.simps) auto
  next
    case True
    with 1 have IH: "set (strides (x + d) d n) = {y. x + d \<le> y \<and> y < n \<and> d dvd (y - (x + d))}"
      by simp
    have "{y. x \<le> y \<and> y < n \<and> d dvd (y - x)} = insert x {y. x + d \<le> y \<and> y < n \<and> d dvd (y - (x + d))}"
      (is "?L = ?R")
    proof (intro set_eqI iffI)
      fix y assume "y \<in> ?L"
      then have y: "x \<le> y" "y < n" "d dvd (y - x)" by auto
      show "y \<in> ?R"
      proof (cases "y = x")
        case True then show ?thesis by simp
      next
        case False
        with y have "0 < y - x" by simp
        with y(3) have "d \<le> y - x" by (rule zdvd_imp_le)
        moreover from y(3) have "d dvd (y - (x + d))"
          by (metis diff_diff_add dvd_diff dvd_refl)
        ultimately show ?thesis using y by simp
      qed
    next
      fix y assume "y \<in> ?R"
      then consider "y = x" | "x + d \<le> y" "y < n" "d dvd (y - (x + d))" by auto
      then show "y \<in> ?L"
      proof cases
        case 1 with True show ?thesis by simp
      next
        case 2
        from 2(3) have "d dvd (y - (x + d)) + d" by (simp only: dvd_add_triv_right_iff)
        then have "d dvd (y - x)" by (simp add: algebra_simps)
        with 2 \<open>0 < d\<close> show ?thesis by simp
      qed
    qed
    with IH True \<open>0 < d\<close> show ?thesis by (subst strides.simps) simp
  qed
qed

lemma set_strides_multiples:
  assumes "0 < d"
  shows "set (strides d d n) = {x. \<exists>k\<ge>1. x = k * d \<and> k * d < n}"
proof -
  have "{x. d \<le> x \<and> x < n \<and> d dvd (x - d)} = {x. \<exists>k\<ge>1. x = k * d \<and> k * d < n}" (is "?L = ?R")
  proof (intro set_eqI iffI)
    fix x assume "x \<in> ?L"
    then have x: "d \<le> x" "x < n" "d dvd (x - d)" by auto
    from x(3) obtain j where j: "x - d = d * j" by (auto simp: dvd_def)
    then have xe: "x = (j + 1) * d" by (simp add: algebra_simps)
    have "1 \<le> j + 1"
    proof (rule ccontr)
      assume "\<not> 1 \<le> j + 1"
      then have "j + 1 \<le> 0" by simp
      with assms have "(j + 1) * d \<le> 0" by (simp add: mult_le_0_iff)
      with xe x(1) assms show False by simp
    qed
    with xe x(2) show "x \<in> ?R" by blast
  next
    fix x assume "x \<in> ?R"
    then obtain k where k: "1 \<le> k" "x = k * d" "k * d < n" by auto
    from k(1) assms have "1 * d \<le> k * d" by (intro mult_right_mono) simp_all
    moreover have "d dvd (k * d - d)" by simp
    ultimately show "x \<in> ?L" using k by simp
  qed
  with assms show ?thesis by (simp add: set_strides)
qed

section \<open>The line-drawing loops\<close>

lemma fold_concat_map: "fold (\<lambda>a. fold g (L a)) xs s = fold g (concat (map L xs)) s"
  by (induction xs arbitrary: s) simp_all

lemma line_cond: "(\<lambda>i. i < lw \<and> x - i \<ge> 0) = (\<lambda>i::int. i < min lw (x + 1))"
  by (intro ext) auto

lemma verticalLines_fold:
  assumes "0 < cellSize"
  shows "verticalLines put cellSize lineWidth width height s
           = Some (fold (\<lambda>(px, py). put px py) (vcoords cellSize lineWidth width height) s)"
proof -
  let ?g = "\<lambda>(px, py). put px py"
  have inner: "for_loop (\<lambda>i. i < lineWidth \<and> x - i \<ge> 0) (\<lambda>i. i + 1)
                 (\<lambda>i s. Some (put (x - i) y s)) 0 s
               = Some (fold ?g (map (\<lambda>i. (x - i, y)) [0..min lineWidth (x + 1) - 1]) s)" for x y s
    unfolding line_cond
    by (subst for_loop_counted [where f = "\<lambda>i. put (x - i) y"]) (simp_all add: fold_map comp_def)
  have mid: "for_loop (\<lambda>y. y < height) (\<lambda>y. y + 1)
               (\<lambda>y. for_loop (\<lambda>i. i < lineWidth \<and> x - i \<ge> 0) (\<lambda>i. i + 1)
                  (\<lambda>i s. Some (put (x - i) y s)) 0) 0 s
             = Some (fold ?g (concat (map (\<lambda>y. map (\<lambda>i. (x - i, y)) [0..min lineWidth (x + 1) - 1])
                                  [0..height - 1])) s)" for x s
  proof -
    have "for_loop (\<lambda>y. y < height) (\<lambda>y. y + 1)
               (\<lambda>y. for_loop (\<lambda>i. i < lineWidth \<and> x - i \<ge> 0) (\<lambda>i. i + 1)
                  (\<lambda>i s. Some (put (x - i) y s)) 0) 0 s
          = Some (fold (\<lambda>y. fold ?g (map (\<lambda>i. (x - i, y)) [0..min lineWidth (x + 1) - 1]))
                    [0..height - 1] s)"
      by (rule for_loop_counted) (rule inner)
    then show ?thesis by (simp only: fold_concat_map)
  qed
  have "for_loop (\<lambda>x. x < width) (\<lambda>x. x + cellSize)
          (\<lambda>x. for_loop (\<lambda>y. y < height) (\<lambda>y. y + 1)
             (\<lambda>y. for_loop (\<lambda>i. i < lineWidth \<and> x - i \<ge> 0) (\<lambda>i. i + 1)
                (\<lambda>i s. Some (put (x - i) y s)) 0) 0) cellSize s
        = Some (fold (\<lambda>x. fold ?g (concat (map (\<lambda>y. map (\<lambda>i. (x - i, y))
                             [0..min lineWidth (x + 1) - 1]) [0..height - 1])))
                  (strides cellSize cellSize width) s)"
    using assms by (rule for_loop_strided) (rule mid)
  then show ?thesis
    unfolding verticalLines_def vcoords_def by (simp only: fold_concat_map)
qed

lemma horizontalLines_fold:
  assumes "0 < cellSize"
  shows "horizontalLines put cellSize lineWidth width height s
           = Some (fold (\<lambda>(px, py). put px py) (hcoords cellSize lineWidth width height) s)"
proof -
  let ?g = "\<lambda>(px, py). put px py"
  have inner: "for_loop (\<lambda>i. i < lineWidth \<and> y - i \<ge> 0) (\<lambda>i. i + 1)
                 (\<lambda>i s. Some (put x (y - i) s)) 0 s
               = Some (fold ?g (map (\<lambda>i. (x, y - i)) [0..min lineWidth (y + 1) - 1]) s)" for x y s
    unfolding line_cond
    by (subst for_loop_counted [where f = "\<lambda>i. put x (y - i)"]) (simp_all add: fold_map comp_def)
  have mid: "for_loop (\<lambda>x. x < width) (\<lambda>x. x + 1)
               (\<lambda>x. for_loop (\<lambda>i. i < lineWidth \<and> y - i \<ge> 0) (\<lambda>i. i + 1)
                  (\<lambda>i s. Some (put x (y - i) s)) 0) 0 s
             = Some (fold ?g (concat (map (\<lambda>x. map (\<lambda>i. (x, y - i)) [0..min lineWidth (y + 1) - 1])
                                  [0..width - 1])) s)" for y s
  proof -
    have "for_loop (\<lambda>x. x < width) (\<lambda>x. x + 1)
               (\<lambda>x. for_loop (\<lambda>i. i < lineWidth \<and> y - i \<ge> 0) (\<lambda>i. i + 1)
                  (\<lambda>i s. Some (put x (y - i) s)) 0) 0 s
          = Some (fold (\<lambda>x. fold ?g (map (\<lambda>i. (x, y - i)) [0..min lineWidth (y + 1) - 1]))
                    [0..width - 1] s)"
      by (rule for_loop_counted) (rule inner)
    then show ?thesis by (simp only: fold_concat_map)
  qed
  have "for_loop (\<lambda>y. y < height) (\<lambda>y. y + cellSize)
          (\<lambda>y. for_loop (\<lambda>x. x < width) (\<lambda>x. x + 1)
             (\<lambda>x. for_loop (\<lambda>i. i < lineWidth \<and> y - i \<ge> 0) (\<lambda>i. i + 1)
                (\<lambda>i s. Some (put x (y - i) s)) 0) 0) cellSize s
        = Some (fold (\<lambda>y. fold ?g (concat (map (\<lambda>x. map (\<lambda>i. (x, y - i))
                             [0..min lineWidth (y + 1) - 1]) [0..width - 1])))
                  (strides cellSize cellSize height) s)"
    using assms by (rule for_loop_strided) (rule mid)
  then show ?thesis
    unfolding horizontalLines_def hcoords_def by (simp only: fold_concat_map)
qed

lemma in_band:
  "(\<exists>i\<in>{0..min lw (x + 1) - 1}. p = x - i) \<longleftrightarrow> 0 \<le> p \<and> x - lw < p \<and> p \<le> (x::int)"
proof
  assume "\<exists>i\<in>{0..min lw (x + 1) - 1}. p = x - i"
  then show "0 \<le> p \<and> x - lw < p \<and> p \<le> x" by auto
next
  assume a: "0 \<le> p \<and> x - lw < p \<and> p \<le> x"
  then have "x - p \<in> {0..min lw (x + 1) - 1} \<and> p = x - (x - p)" by auto
  then show "\<exists>i\<in>{0..min lw (x + 1) - 1}. p = x - i" by blast
qed

lemma in_vcoords:
  assumes "0 < cs"
  shows "(px, py) \<in> set (vcoords cs lw W H) \<longleftrightarrow>
           0 \<le> py \<and> py < H \<and> 0 \<le> px \<and> (\<exists>k\<ge>1. k * cs < W \<and> k * cs - lw < px \<and> px \<le> k * cs)"
proof -
  have "(px, py) \<in> set (vcoords cs lw W H) \<longleftrightarrow>
          (\<exists>x \<in> set (strides cs cs W). py \<in> {0..H - 1}
             \<and> (\<exists>i\<in>{0..min lw (x + 1) - 1}. px = x - i))"
    unfolding vcoords_def by (simp add: image_iff) blast
  also have "\<dots> \<longleftrightarrow> (\<exists>x \<in> set (strides cs cs W). 0 \<le> py \<and> py < H \<and> 0 \<le> px \<and> x - lw < px \<and> px \<le> x)"
    by (simp only: in_band) auto
  also have "\<dots> \<longleftrightarrow> 0 \<le> py \<and> py < H \<and> 0 \<le> px
                   \<and> (\<exists>k\<ge>1. k * cs < W \<and> k * cs - lw < px \<and> px \<le> k * cs)"
    using assms by (auto simp: set_strides_multiples)
  finally show ?thesis .
qed

lemma in_hcoords:
  assumes "0 < cs"
  shows "(px, py) \<in> set (hcoords cs lw W H) \<longleftrightarrow>
           0 \<le> px \<and> px < W \<and> 0 \<le> py \<and> (\<exists>k\<ge>1. k * cs < H \<and> k * cs - lw < py \<and> py \<le> k * cs)"
proof -
  have "(px, py) \<in> set (hcoords cs lw W H) \<longleftrightarrow>
          (\<exists>y \<in> set (strides cs cs H). px \<in> {0..W - 1}
             \<and> (\<exists>i\<in>{0..min lw (y + 1) - 1}. py = y - i))"
    unfolding hcoords_def by (simp add: image_iff)
  also have "\<dots> \<longleftrightarrow> (\<exists>y \<in> set (strides cs cs H). 0 \<le> px \<and> px < W \<and> 0 \<le> py \<and> y - lw < py \<and> py \<le> y)"
    by (simp only: in_band) auto
  also have "\<dots> \<longleftrightarrow> 0 \<le> px \<and> px < W \<and> 0 \<le> py
                   \<and> (\<exists>k\<ge>1. k * cs < H \<and> k * cs - lw < py \<and> py \<le> k * cs)"
    using assms by (auto simp: set_strides_multiples)
  finally show ?thesis .
qed

lemma fold_RGBA_Set_Rect:
  "Rect (fold (\<lambda>(px, py) ov. RGBA_Set ov px py c) ps ov) = Rect ov"
  by (induction ps arbitrary: ov) (auto simp: RGBA_Set_def)

lemma fold_RGBA_Set_Pix:
  "Pix (fold (\<lambda>(px, py) ov. RGBA_Set ov px py c) ps ov) p
     = (if p \<in> set ps \<and> In_rect p (Rect ov) then c else Pix ov p)"
proof (induction ps arbitrary: ov)
  case Nil
  show ?case by simp
next
  case (Cons q ps)
  obtain qx qy where q: "q = (qx, qy)" by (cases q)
  have r: "Rect (RGBA_Set ov qx qy c) = Rect ov" by (simp add: RGBA_Set_def)
  show ?case
    using Cons.IH [of "RGBA_Set ov qx qy c"]
    by (auto simp: q r) (auto simp: RGBA_Set_def)
qed

lemma fold_append_writes: "fold (\<lambda>(px, py) ws. ws @ [(px, py)]) ps ws = ws @ ps"
  by (induction ps arbitrary: ws) auto


lemma drawLines_result:
  assumes "0 < CellSize config"
  shows "drawLines config overlay =
           Some (fold (\<lambda>(px, py) ov. RGBA_Set ov px py (GridColor config))
                   (vcoords (CellSize config) (LineWidth config) (MaxX (Rect overlay)) (MaxY (Rect overlay))
                    @ hcoords (CellSize config) (LineWidth config) (MaxX (Rect overlay)) (MaxY (Rect overlay)))
                   overlay)"
  using assms by (simp add: drawLines_def Let_def verticalLines_fold horizontalLines_fold)

lemma lineWrites_result:
  assumes "0 < cellSize"
  shows "lineWrites cellSize lineWidth width height =
           Some (vcoords cellSize lineWidth width height @ hcoords cellSize lineWidth width height)"
  using assms
  by (simp add: lineWrites_def verticalLines_fold horizontalLines_fold fold_append_writes)

section \<open>Labels\<close>

lemma only_changed_in_refl: "only_changed_in region img img"
  by (simp add: only_changed_in_def)

lemma set_clipped_frame:
  assumes "only_changed_in region img s" and "region (px, py)"
  shows "only_changed_in region img (set_clipped s px py c)"
  using assms
  by (auto simp: only_changed_in_def set_clipped_def RGBA_Set_def in_canvas_def In_rect_def
      split: if_splits)

lemma pattern_shape:
  "length (getDigitPattern d) \<le> 7 \<and> (\<forall>line \<in> set (getDigitPattern d). length line \<le> 5)"
  by (simp add: getDigitPattern_def patterns_def)

lemma label_geometry_x:
  fixes s :: int
  assumes "0 \<le> k" "k < n" "0 \<le> col" "col < 5" "0 \<le> sx" "sx < s"
  shows "0 \<le> 2 * s + k * (5 * s + 2 * s) + col * s + sx"
    and "2 * s + k * (5 * s + 2 * s) + col * s + sx < n * (5 * s) + (n - 1) * (2 * s) + 2 * (2 * s)"
proof -
  define ks cs ns where "ks = k * s" and "cs = col * s" and "ns = n * s"
  from assms have s: "0 < s" by simp
  have a: "0 \<le> ks" unfolding ks_def using assms s by simp
  have b: "0 \<le> cs" unfolding cs_def using assms s by simp
  have "k * s \<le> (n - 1) * s" using assms s by (intro mult_right_mono) simp_all
  then have c: "ks \<le> ns - s" unfolding ks_def ns_def by (simp add: algebra_simps)
  have "col * s \<le> 4 * s" using assms s by (intro mult_right_mono) simp_all
  then have d: "cs \<le> 4 * s" unfolding cs_def .
  have l: "2 * s + k * (5 * s + 2 * s) + col * s + sx = 2 * s + 7 * ks + cs + sx"
    unfolding ks_def cs_def by (simp add: algebra_simps)
  have r: "n * (5 * s) + (n - 1) * (2 * s) + 2 * (2 * s) = 7 * ns + 2 * s"
    unfolding ns_def by (simp add: algebra_simps)
  show "0 \<le> 2 * s + k * (5 * s + 2 * s) + col * s + sx"
    unfolding l using a b s assms by linarith
  show "2 * s + k * (5 * s + 2 * s) + col * s + sx < n * (5 * s) + (n - 1) * (2 * s) + 2 * (2 * s)"
    unfolding l r using a b c d s assms by linarith
qed

lemma label_geometry_y:
  fixes s :: int
  assumes "0 \<le> row" "row < 7" "0 \<le> sy" "sy < s"
  shows "0 \<le> 2 * s + row * s + sy"
    and "2 * s + row * s + sy < 7 * s + 2 * (2 * s)"
proof -
  define rs where "rs = row * s"
  from assms have s: "0 < s" by simp
  have b: "0 \<le> rs" unfolding rs_def using assms s by simp
  have "row * s \<le> 6 * s" using assms s by (intro mult_right_mono) simp_all
  then have d: "rs \<le> 6 * s" unfolding rs_def .
  show "0 \<le> 2 * s + row * s + sy" unfolding rs_def [symmetric] using b s assms by linarith
  show "2 * s + row * s + sy < 7 * s + 2 * (2 * s)"
    unfolding rs_def [symmetric] using b d s assms by linarith
qed

lemma drawLargeNumber_frame:
  fixes img :: "'c image" and config :: "'c Config"
  shows "\<exists>img'. drawLargeNumber img x y number config = Some img'
              \<and> only_changed_in (in_label_box x y number config) img img'"
proof -
  define s where "s = NumberScale config"
  define numStr where "numStr = Sprintf_d number"
  define n where "n = int (length numStr)"
  define totalWidth where "totalWidth = n * (5 * s) + (n - 1) * (2 * s) + 2 * (2 * s)"
  define totalHeight where "totalHeight = 7 * s + 2 * (2 * s)"
  define startX where "startX = x - tquot totalWidth 2"
  define startY where "startY = y - tquot totalHeight 2"
  define P where "P = only_changed_in (in_label_box x y number config) img"
  have box: "in_label_box x y number config (px, py) \<longleftrightarrow>
               startX \<le> px \<and> px < startX + totalWidth \<and> startY \<le> py \<and> py < startY + totalHeight"
    for px py
    by (simp add: in_label_box_def labelWidth_def labelHeight_def startX_def startY_def
        totalWidth_def totalHeight_def n_def numStr_def s_def Let_def)
  have put: "P (set_clipped im px py c)"
    if "P im" "startX \<le> px" "px < startX + totalWidth" "startY \<le> py" "py < startY + totalHeight"
    for im px py c
    using that unfolding P_def by (intro set_clipped_frame) (simp_all add: box)
  \<comment> \<open>the background rectangle\<close>
  have bg: "\<exists>im'. for_loop (\<lambda>dx. dx < totalWidth) (\<lambda>dx. dx + 1)
             (\<lambda>dx. for_loop (\<lambda>dy. dy < totalHeight) (\<lambda>dy. dy + 1)
                (\<lambda>dy im. Some (set_clipped im (startX + dx) (startY + dy) (NumberBG config)))
                0)
             0 img = Some im' \<and> P im'"
  proof (rule for_loop_counted_inv [where P = P])
    show "P img" by (simp add: P_def only_changed_in_refl)
  next
    fix dx im assume im: "P im" and dx: "0 \<le> dx" "dx < totalWidth"
    show "\<exists>im'. for_loop (\<lambda>dy. dy < totalHeight) (\<lambda>dy. dy + 1)
                (\<lambda>dy im. Some (set_clipped im (startX + dx) (startY + dy) (NumberBG config)))
                0 im = Some im' \<and> P im'"
    proof (rule for_loop_counted_inv [where P = P and s = im, OF im])
      fix dy im2 assume "P im2" "0 \<le> dy" "dy < totalHeight"
      with dx show "\<exists>im'. Some (set_clipped im2 (startX + dx) (startY + dy) (NumberBG config))
                      = Some im' \<and> P im'"
        by (simp add: put)
    qed
  qed
  \<comment> \<open>the digits\<close>
  have digits: "\<exists>im'. range_loop
             (\<lambda>i digit.
                let pattern = getDigitPattern digit;
                    digitX = startX + 2 * s + i * (5 * s + 2 * s);
                    digitY = startY + 2 * s
                in range_loop
                     (\<lambda>row line. range_loop
                        (\<lambda>col char img.
                           if char = CHR ''#'' then
                             for_loop (\<lambda>sx. sx < s) (\<lambda>sx. sx + 1)
                               (\<lambda>sx. for_loop (\<lambda>sy. sy < s) (\<lambda>sy. sy + 1)
                                  (\<lambda>sy img. Some (set_clipped img
                                     (digitX + col * s + sx)
                                     (digitY + row * s + sy)
                                     (NumberColor config)))
                                  0)
                               0 img
                           else Some img)
                        0 line)
                     0 pattern)
             0 numStr im = Some im' \<and> P im'" if "P im" for im
  proof (rule range_loop_inv [where P = P and s = im, OF that])
    fix k im1 assume im1: "P im1" and k: "k < length numStr"
    let ?pattern = "getDigitPattern (numStr ! k)"
    let ?digitX = "startX + 2 * s + (0 + int k) * (5 * s + 2 * s)"
    let ?digitY = "startY + 2 * s"
    have "\<exists>im'. range_loop
                     (\<lambda>row line. range_loop
                        (\<lambda>col char img.
                           if char = CHR ''#'' then
                             for_loop (\<lambda>sx. sx < s) (\<lambda>sx. sx + 1)
                               (\<lambda>sx. for_loop (\<lambda>sy. sy < s) (\<lambda>sy. sy + 1)
                                  (\<lambda>sy img. Some (set_clipped img
                                     (?digitX + col * s + sx)
                                     (?digitY + row * s + sy)
                                     (NumberColor config)))
                                  0)
                               0 img
                           else Some img)
                        0 line)
                     0 ?pattern im1 = Some im' \<and> P im'"
    proof (rule range_loop_inv [where P = P and s = im1, OF im1])
      fix r im2 assume im2: "P im2" and r: "r < length ?pattern"
      let ?line = "?pattern ! r"
      from r pattern_shape [of "numStr ! k"] have r7: "int r < 7" by simp
      from r pattern_shape [of "numStr ! k"] have l5: "length ?line \<le> 5"
        using nth_mem by blast
      show "\<exists>im'. range_loop
                        (\<lambda>col char img.
                           if char = CHR ''#'' then
                             for_loop (\<lambda>sx. sx < s) (\<lambda>sx. sx + 1)
                               (\<lambda>sx. for_loop (\<lambda>sy. sy < s) (\<lambda>sy. sy + 1)
                                  (\<lambda>sy img. Some (set_clipped img
                                     (?digitX + col * s + sx)
                                     (?digitY + (0 + int r) * s + sy)
                                     (NumberColor config)))
                                  0)
                               0 img
                           else Some img)
                        0 ?line im2 = Some im' \<and> P im'"
      proof (rule range_loop_inv [where P = P and s = im2, OF im2])
        fix c im3 assume im3: "P im3" and c: "c < length ?line"
        from c l5 have c5: "int c < 5" by simp
        show "\<exists>im'. (if ?line ! c = CHR ''#'' then
                             for_loop (\<lambda>sx. sx < s) (\<lambda>sx. sx + 1)
                               (\<lambda>sx. for_loop (\<lambda>sy. sy < s) (\<lambda>sy. sy + 1)
                                  (\<lambda>sy img. Some (set_clipped img
                                     (?digitX + (0 + int c) * s + sx)
                                     (?digitY + (0 + int r) * s + sy)
                                     (NumberColor config)))
                                  0)
                               0 im3
                           else Some im3) = Some im' \<and> P im'"
        proof (cases "?line ! c = CHR ''#''")
          case False
          with im3 show ?thesis by simp
        next
          case True
          have "\<exists>im'. for_loop (\<lambda>sx. sx < s) (\<lambda>sx. sx + 1)
                               (\<lambda>sx. for_loop (\<lambda>sy. sy < s) (\<lambda>sy. sy + 1)
                                  (\<lambda>sy img. Some (set_clipped img
                                     (?digitX + (0 + int c) * s + sx)
                                     (?digitY + (0 + int r) * s + sy)
                                     (NumberColor config)))
                                  0)
                               0 im3 = Some im' \<and> P im'"
          proof (rule for_loop_counted_inv [where P = P and s = im3, OF im3])
            fix sx im4 assume im4: "P im4" and sx: "0 \<le> sx" "sx < s"
            show "\<exists>im'. for_loop (\<lambda>sy. sy < s) (\<lambda>sy. sy + 1)
                                  (\<lambda>sy img. Some (set_clipped img
                                     (?digitX + (0 + int c) * s + sx)
                                     (?digitY + (0 + int r) * s + sy)
                                     (NumberColor config)))
                                  0 im4 = Some im' \<and> P im'"
            proof (rule for_loop_counted_inv [where P = P and s = im4, OF im4])
              fix sy im5 assume im5: "P im5" and sy: "0 \<le> sy" "sy < s"
              have kn: "0 \<le> int k" "int k < n" using k by (simp_all add: n_def)
              note gx = label_geometry_x [OF kn, of "int c" sx s, OF _ c5 sx]
              note gy = label_geometry_y [OF _ r7 sy]
              have "P (set_clipped im5 (?digitX + (0 + int c) * s + sx)
                                     (?digitY + (0 + int r) * s + sy) (NumberColor config))"
                using gx gy by (intro put [OF im5]) (simp_all add: totalWidth_def totalHeight_def)
              then show "\<exists>im'. Some (set_clipped im5 (?digitX + (0 + int c) * s + sx)
                                     (?digitY + (0 + int r) * s + sy) (NumberColor config))
                              = Some im' \<and> P im'" by simp
            qed
          qed
          with True show ?thesis by simp
        qed
      qed
    qed
    then show "\<exists>im'. (let pattern = getDigitPattern (numStr ! k);
                    digitX = startX + 2 * s + (0 + int k) * (5 * s + 2 * s);
                    digitY = startY + 2 * s
                in range_loop
                     (\<lambda>row line. range_loop
                        (\<lambda>col char img.
                           if char = CHR ''#'' then
                             for_loop (\<lambda>sx. sx < s) (\<lambda>sx. sx + 1)
                               (\<lambda>sx. for_loop (\<lambda>sy. sy < s) (\<lambda>sy. sy + 1)
                                  (\<lambda>sy img. Some (set_clipped img
                                     (digitX + col * s + sx)
                                     (digitY + row * s + sy)
                                     (NumberColor config)))
                                  0)
                               0 img
                           else Some img)
                        0 line)
                     0 pattern) im1 = Some im' \<and> P im'"
      by (simp only: Let_def)
  qed
  from bg obtain im1 where b1: "for_loop (\<lambda>dx. dx < totalWidth) (\<lambda>dx. dx + 1)
             (\<lambda>dx. for_loop (\<lambda>dy. dy < totalHeight) (\<lambda>dy. dy + 1)
                (\<lambda>dy im. Some (set_clipped im (startX + dx) (startY + dy) (NumberBG config)))
                0)
             0 img = Some im1" and p1: "P im1" by blast
  from digits [OF p1] obtain im2 where b2: "range_loop
             (\<lambda>i digit.
                let pattern = getDigitPattern digit;
                    digitX = startX + 2 * s + i * (5 * s + 2 * s);
                    digitY = startY + 2 * s
                in range_loop
                     (\<lambda>row line. range_loop
                        (\<lambda>col char img.
                           if char = CHR ''#'' then
                             for_loop (\<lambda>sx. sx < s) (\<lambda>sx. sx + 1)
                               (\<lambda>sx. for_loop (\<lambda>sy. sy < s) (\<lambda>sy. sy + 1)
                                  (\<lambda>sy img. Some (set_clipped img
                                     (digitX + col * s + sx)
                                     (digitY + row * s + sy)
                                     (NumberColor config)))
                                  0)
                               0 img
                           else Some img)
                        0 line)
                     0 pattern)
             0 numStr im1 = Some im2" and p2: "P im2" by blast
  have "drawLargeNumber img x y number config = Some im2"
    using b1 b2
    unfolding drawLargeNumber_def Let_def totalWidth_def totalHeight_def startX_def startY_def
      n_def numStr_def s_def
    by (simp only: Option.bind.simps)
  with p2 show ?thesis unfolding P_def by blast
qed

lemma drawLargeNumber_returns: "drawLargeNumber img x y number config \<noteq> None"
  using drawLargeNumber_frame [of img x y number config] by auto

text \<open>
  Claim C9. For every centre, number and configuration, \<open>drawLargeNumber\<close> returns, with
  the bounds of the canvas as they were, and every pixel that is outside the canvas
  (\<open>0 \<le> px < Max.X\<close>, \<open>0 \<le> py < Max.Y\<close>, inside the bounds) or outside the background
  rectangle of the label is unchanged, also when the rectangle reaches over the edges.
\<close>

theorem label_clipping_frame:
  fixes img :: "'c image" and config :: "'c Config"
  shows "\<exists>img'. drawLargeNumber img x y number config = Some img'
              \<and> Rect img' = Rect img
              \<and> (\<forall>p. \<not> (in_canvas img p \<and> in_label_box x y number config p)
                     \<longrightarrow> Pix img' p = Pix img p)"
proof -
  from drawLargeNumber_frame [of img x y number config] obtain img'
    where r: "drawLargeNumber img x y number config = Some img'"
      and f: "only_changed_in (in_label_box x y number config) img img'"
    by blast
  from f have "Rect img' = Rect img"
    and "\<forall>p. \<not> (in_canvas img p \<and> in_label_box x y number config p) \<longrightarrow> Pix img' p = Pix img p"
    unfolding only_changed_in_def by blast+
  with r show ?thesis by blast
qed

theorem label_clipping_frame_witness:
  "\<not> (in_canvas \<lparr>Rect = \<lparr>MinX = 0, MinY = 0, MaxX = 10, MaxY = 10\<rparr>, Pix = \<lambda>p. RGBA 0 0 0 255\<rparr> (0, 3)
       \<and> in_label_box 5 5 7 (DefaultConfig\<lparr>NumberScale := 1\<rparr>) (0, 3))
   \<and> \<not> (in_canvas \<lparr>Rect = \<lparr>MinX = 0, MinY = 0, MaxX = 10, MaxY = 10\<rparr>, Pix = \<lambda>p. RGBA 0 0 0 255\<rparr> (12, 3)
       \<and> in_label_box 5 5 7 (DefaultConfig\<lparr>NumberScale := 1\<rparr>) (12, 3))
   \<and> (\<exists>img'. drawLargeNumber
                \<lparr>Rect = \<lparr>MinX = 0, MinY = 0, MaxX = 10, MaxY = 10\<rparr>, Pix = \<lambda>p. RGBA 0 0 0 255\<rparr>
                5 5 7 (DefaultConfig\<lparr>NumberScale := 1\<rparr>) = Some img'
         \<and> Pix img' (0, 3) = RGBA 0 0 0 255 \<and> Pix img' (12, 3) = RGBA 0 0 0 255)"
proof -
  let ?img = "\<lparr>Rect = \<lparr>MinX = 0, MinY = 0, MaxX = 10, MaxY = 10\<rparr>, Pix = \<lambda>p. RGBA 0 0 0 255\<rparr>
                :: color image"
  let ?cfg = "DefaultConfig\<lparr>NumberScale := 1\<rparr>"
  have out1: "\<not> (in_canvas ?img (0, 3) \<and> in_label_box 5 5 7 ?cfg (0, 3))"
    by (simp add: in_label_box_def labelWidth_def labelHeight_def Sprintf_d_def decimal.simps
        tquot_def DefaultConfig_def)
  have out2: "\<not> (in_canvas ?img (12, 3) \<and> in_label_box 5 5 7 ?cfg (12, 3))"
    by (simp add: in_canvas_def)
  from label_clipping_frame [of ?img 5 5 7 ?cfg] obtain img'
    where d: "drawLargeNumber ?img 5 5 7 ?cfg = Some img'"
      and f: "\<forall>p. \<not> (in_canvas ?img p \<and> in_label_box 5 5 7 ?cfg p) \<longrightarrow> Pix img' p = Pix ?img p"
    by blast
  from f out1 have "Pix img' (0, 3) = RGBA 0 0 0 255" by simp
  moreover from f out2 have "Pix img' (12, 3) = RGBA 0 0 0 255" by simp
  ultimately show ?thesis using d out1 out2 by blast
qed

section \<open>The numbering loop\<close>

lemma cell_cond:
  assumes "0 < (c::int)"
  shows "(g * c < h) = (g < \<lceil>real_of_int h / real_of_int c\<rceil>)"
proof -
  have "(g < \<lceil>real_of_int h / real_of_int c\<rceil>) = (real_of_int g < real_of_int h / real_of_int c)"
    by (rule less_ceiling_iff)
  also have "\<dots> = (real_of_int g * real_of_int c < real_of_int h)"
    using assms by (simp add: pos_less_divide_eq)
  also have "\<dots> = (real_of_int (g * c) < real_of_int h)" by simp
  also have "\<dots> = (g * c < h)" by (simp only: of_int_less_iff)
  finally show ?thesis by simp
qed

lemma ceiling_div_nonneg:
  assumes "0 < (c::int)" "0 \<le> h"
  shows "0 \<le> \<lceil>real_of_int h / real_of_int c\<rceil>"
proof -
  have "0 \<le> real_of_int h / real_of_int c" using assms by simp
  then show ?thesis by (simp add: zero_le_ceiling)
qed

lemma numberCells_row:
  fixes label :: "int \<Rightarrow> int \<Rightarrow> int \<Rightarrow> 's \<Rightarrow> 's option"
  assumes cs: "0 < cellSize" and w: "0 \<le> width"
    and total: "\<And>x y n s. label x y n s \<noteq> None"
  shows "\<exists>s'. for_loop (\<lambda>gridX. gridX * cellSize < width) (\<lambda>gridX. gridX + 1)
          (\<lambda>gridX (overlay, cellNumber).
             let centerX = gridX * cellSize + tquot cellSize 2;
                 centerY = gridY * cellSize + tquot cellSize 2
             in Option.bind
                  (if centerX < width \<and> centerY < height
                   then label centerX centerY cellNumber overlay else Some overlay)
                  (\<lambda>overlay. Some (overlay, cellNumber + 1)))
          0 (s, n) = Some (s', n + \<lceil>real_of_int width / real_of_int cellSize\<rceil>)"
proof -
  define C where "C = \<lceil>real_of_int width / real_of_int cellSize\<rceil>"
  have C: "0 \<le> C" unfolding C_def using cs w by (rule ceiling_div_nonneg)
  let ?body = "(\<lambda>gridX (overlay, cellNumber).
             let centerX = gridX * cellSize + tquot cellSize 2;
                 centerY = gridY * cellSize + tquot cellSize 2
             in Option.bind
                  (if centerX < width \<and> centerY < height
                   then label centerX centerY cellNumber overlay else Some overlay)
                  (\<lambda>overlay. Some (overlay, cellNumber + 1)))"
  have "\<exists>j st. for_loop (\<lambda>gridX. gridX * cellSize < width) (\<lambda>gridX. gridX + 1) ?body 0 (s, n)
                  = Some st \<and> (0 \<le> j \<and> j \<le> C \<and> snd st = n + j) \<and> \<not> j * cellSize < width"
  proof (rule for_loop_rule [where m = "\<lambda>i. nat (C - i)"
                               and I = "\<lambda>i st. 0 \<le> i \<and> i \<le> C \<and> snd st = n + i"])
    show "0 \<le> (0::int) \<and> 0 \<le> C \<and> snd (s, n) = n + 0" using C by simp
  next
    fix i and st :: "'s \<times> int"
    assume I: "0 \<le> i \<and> i \<le> C \<and> snd st = n + i" and c: "i * cellSize < width"
    obtain ov k where st: "st = (ov, k)" by (cases st)
    from c cs have lt: "i < C" unfolding C_def by (simp add: cell_cond)
    have "\<exists>ov'. (if i * cellSize + tquot cellSize 2 < width
                          \<and> gridY * cellSize + tquot cellSize 2 < height
                       then label (i * cellSize + tquot cellSize 2)
                              (gridY * cellSize + tquot cellSize 2) k ov
                       else Some ov) = Some ov'"
      using total [of "i * cellSize + tquot cellSize 2" "gridY * cellSize + tquot cellSize 2" k ov]
      by auto
    then obtain ov' where "(if i * cellSize + tquot cellSize 2 < width
                          \<and> gridY * cellSize + tquot cellSize 2 < height
                       then label (i * cellSize + tquot cellSize 2)
                              (gridY * cellSize + tquot cellSize 2) k ov
                       else Some ov) = Some ov'" ..
    then have "?body i st = Some (ov', k + 1)" by (simp add: st Let_def)
    with I lt st
    show "nat (C - (i + 1)) < nat (C - i)
          \<and> (\<exists>s'. ?body i st = Some s' \<and> 0 \<le> i + 1 \<and> i + 1 \<le> C \<and> snd s' = n + (i + 1))"
      by auto
  qed
  then obtain j st where r: "for_loop (\<lambda>gridX. gridX * cellSize < width) (\<lambda>gridX. gridX + 1)
        ?body 0 (s, n) = Some st" and j: "0 \<le> j" "j \<le> C" "snd st = n + j" "\<not> j * cellSize < width"
    by blast
  from j(4) cs have "\<not> j < C" unfolding C_def by (simp add: cell_cond)
  with j have "snd st = n + C" by simp
  with r show ?thesis unfolding C_def by (cases st) auto
qed

lemma numberCells_count:
  fixes label :: "int \<Rightarrow> int \<Rightarrow> int \<Rightarrow> 's \<Rightarrow> 's option"
  assumes cs: "0 < cellSize" and w: "0 \<le> width" and h: "0 \<le> height"
    and total: "\<And>x y n s. label x y n s \<noteq> None"
  shows "\<exists>s'. numberCells label cellSize width height (s, 0)
           = Some (s', \<lceil>real_of_int height / real_of_int cellSize\<rceil>
                        * \<lceil>real_of_int width / real_of_int cellSize\<rceil>)"
proof -
  define C where "C = \<lceil>real_of_int width / real_of_int cellSize\<rceil>"
  define R where "R = \<lceil>real_of_int height / real_of_int cellSize\<rceil>"
  have R: "0 \<le> R" unfolding R_def using cs h by (rule ceiling_div_nonneg)
  let ?row = "\<lambda>gridY. for_loop (\<lambda>gridX. gridX * cellSize < width) (\<lambda>gridX. gridX + 1)
          (\<lambda>gridX (overlay, cellNumber).
             let centerX = gridX * cellSize + tquot cellSize 2;
                 centerY = gridY * cellSize + tquot cellSize 2
             in Option.bind
                  (if centerX < width \<and> centerY < height
                   then label centerX centerY cellNumber overlay else Some overlay)
                  (\<lambda>overlay. Some (overlay, cellNumber + 1)))
          0"
  have "\<exists>j st. for_loop (\<lambda>gridY. gridY * cellSize < height) (\<lambda>gridY. gridY + 1) ?row 0 (s, 0)
                  = Some st \<and> (0 \<le> j \<and> j \<le> R \<and> snd st = j * C) \<and> \<not> j * cellSize < height"
  proof (rule for_loop_rule [where m = "\<lambda>i. nat (R - i)"
                               and I = "\<lambda>i st. 0 \<le> i \<and> i \<le> R \<and> snd st = i * C"])
    show "0 \<le> (0::int) \<and> 0 \<le> R \<and> snd (s, 0::int) = 0 * C" using R by simp
  next
    fix i and st :: "'s \<times> int"
    assume I: "0 \<le> i \<and> i \<le> R \<and> snd st = i * C" and c: "i * cellSize < height"
    obtain ov k where st: "st = (ov, k)" by (cases st)
    from c cs have lt: "i < R" unfolding R_def by (simp add: cell_cond)
    from numberCells_row [where label = label and gridY = i and height = height and s = ov
        and n = k, OF cs w total]
    obtain ov' where "?row i (ov, k) = Some (ov', k + C)" unfolding C_def by blast
    with I lt st
    show "nat (R - (i + 1)) < nat (R - i)
          \<and> (\<exists>s'. ?row i st = Some s' \<and> 0 \<le> i + 1 \<and> i + 1 \<le> R \<and> snd s' = (i + 1) * C)"
      by (auto simp: algebra_simps)
  qed
  then obtain j st where r: "for_loop (\<lambda>gridY. gridY * cellSize < height) (\<lambda>gridY. gridY + 1)
        ?row 0 (s, 0) = Some st" and j: "0 \<le> j" "j \<le> R" "snd st = j * C" "\<not> j * cellSize < height"
    by blast
  from j(4) cs have "\<not> j < R" unfolding R_def by (simp add: cell_cond)
  with j have "snd st = R * C" by simp
  with r show ?thesis unfolding C_def R_def numberCells_def by (cases st) auto
qed

lemma cell_cond_fun:
  "0 < (c::int) \<Longrightarrow> (\<lambda>g. g * c < h) = (\<lambda>g. g < \<lceil>real_of_int h / real_of_int c\<rceil>)"
  by (intro ext) (rule cell_cond)

lemma labelCalls_fold:
  assumes cs: "0 < cellSize"
  shows "labelCalls cellSize width height =
           Some (fold (\<lambda>gridY. fold (\<lambda>gridX (calls, cellNumber).
                    (calls @ (if gridX * cellSize + tquot cellSize 2 < width
                                 \<and> gridY * cellSize + tquot cellSize 2 < height
                              then [(gridX * cellSize + tquot cellSize 2,
                                     gridY * cellSize + tquot cellSize 2, cellNumber)]
                              else []),
                     cellNumber + 1))
                   [0..\<lceil>real_of_int width / real_of_int cellSize\<rceil> - 1])
                 [0..\<lceil>real_of_int height / real_of_int cellSize\<rceil> - 1] ([], 0))"
proof -
  let ?f = "\<lambda>gridY gridX (calls, cellNumber).
                    (calls @ (if gridX * cellSize + tquot cellSize 2 < width
                                 \<and> gridY * cellSize + tquot cellSize 2 < height
                              then [(gridX * cellSize + tquot cellSize 2,
                                     gridY * cellSize + tquot cellSize 2, cellNumber)]
                              else []),
                     cellNumber + 1 :: int)"
  let ?body = "\<lambda>gridY gridX (overlay, cellNumber).
             let centerX = gridX * cellSize + tquot cellSize 2;
                 centerY = gridY * cellSize + tquot cellSize 2
             in Option.bind
                  (if centerX < width \<and> centerY < height
                   then Some (overlay @ [(centerX, centerY, cellNumber)]) else Some overlay)
                  (\<lambda>overlay. Some (overlay, cellNumber + 1 :: int))"
  have body: "?body gridY gridX st = Some (?f gridY gridX st)" for gridY gridX st
    by (cases st) (simp add: Let_def)
  have row: "for_loop (\<lambda>gridX. gridX < \<lceil>real_of_int width / real_of_int cellSize\<rceil>)
               (\<lambda>gridX. gridX + 1) (?body gridY) 0 st
             = Some (fold (?f gridY) [0..\<lceil>real_of_int width / real_of_int cellSize\<rceil> - 1] st)"
    for gridY st
    by (rule for_loop_counted) (rule body)
  have "for_loop (\<lambda>gridY. gridY < \<lceil>real_of_int height / real_of_int cellSize\<rceil>)
          (\<lambda>gridY. gridY + 1)
          (\<lambda>gridY. for_loop (\<lambda>gridX. gridX < \<lceil>real_of_int width / real_of_int cellSize\<rceil>)
               (\<lambda>gridX. gridX + 1) (?body gridY) 0) 0 ([], 0)
        = Some (fold (\<lambda>gridY. fold (?f gridY) [0..\<lceil>real_of_int width / real_of_int cellSize\<rceil> - 1])
                  [0..\<lceil>real_of_int height / real_of_int cellSize\<rceil> - 1] ([], 0))"
    by (rule for_loop_counted) (rule row)
  then show ?thesis
    unfolding labelCalls_def numberCells_def cell_cond_fun [OF cs] .
qed

lemma ceiling_div_one:
  assumes "0 < (w::int)" "w \<le> c"
  shows "\<lceil>real_of_int w / real_of_int c\<rceil> = 1"
proof (rule ceiling_unique)
  from assms have c: "0 < real_of_int c" by simp
  show "real_of_int 1 - 1 < real_of_int w / real_of_int c" using assms c by simp
  show "real_of_int w / real_of_int c \<le> real_of_int 1" using assms c by simp
qed

text \<open>
  Claim C7. For every \<open>cellSize > 0\<close> and image of width \<open>W \<ge> 0\<close> and height \<open>H \<ge> 0\<close>, the
  numbering loop of \<open>AddGrid\<close> returns with
  \<open>cellNumber = \<lceil>H / cellSize\<rceil> * \<lceil>W / cellSize\<rceil>\<close>; so does the same loop when it
  only lists the labels it asks for.
\<close>

theorem total_cell_count:
  fixes config :: "'c Config" and overlay :: "'c image"
  assumes "0 < cellSize" and "0 \<le> W" and "0 \<le> H"
  shows "(\<exists>overlay'. numberCells (\<lambda>x y n ov. drawLargeNumber ov x y n config) cellSize W H
                        (overlay, 0)
            = Some (overlay', \<lceil>real_of_int H / real_of_int cellSize\<rceil>
                              * \<lceil>real_of_int W / real_of_int cellSize\<rceil>))
       \<and> (\<exists>calls. labelCalls cellSize W H
            = Some (calls, \<lceil>real_of_int H / real_of_int cellSize\<rceil>
                           * \<lceil>real_of_int W / real_of_int cellSize\<rceil>))"
proof
  show "\<exists>overlay'. numberCells (\<lambda>x y n ov. drawLargeNumber ov x y n config) cellSize W H
                        (overlay, 0)
            = Some (overlay', \<lceil>real_of_int H / real_of_int cellSize\<rceil>
                              * \<lceil>real_of_int W / real_of_int cellSize\<rceil>)"
    using assms by (intro numberCells_count) (simp_all add: drawLargeNumber_returns)
  have "\<exists>calls. numberCells (\<lambda>x y n calls. Some (calls @ [(x, y, n)])) cellSize W H ([], 0)
            = Some (calls, \<lceil>real_of_int H / real_of_int cellSize\<rceil>
                           * \<lceil>real_of_int W / real_of_int cellSize\<rceil>)"
    using assms by (intro numberCells_count) simp_all
  then show "\<exists>calls. labelCalls cellSize W H
            = Some (calls, \<lceil>real_of_int H / real_of_int cellSize\<rceil>
                           * \<lceil>real_of_int W / real_of_int cellSize\<rceil>)"
    by (simp add: labelCalls_def)
qed

theorem total_cell_count_witness:
  "(0::int) < 100 \<and> (0::int) \<le> 250 \<and> (0::int) \<le> 200
   \<and> (\<exists>calls. labelCalls 100 250 200 = Some (calls, 6))"
  using total_cell_count [where cellSize = 100 and W = 250 and H = 200 and config = DefaultConfig]
  by simp

text \<open>For a positive cell size the whole of \<open>AddGrid\<close>, up to the encoder, returns.\<close>

lemma AddGrid_overlay_returns:
  assumes "0 < CellSize config" and "0 \<le> MaxX (Rect img)" and "0 \<le> MaxY (Rect img)"
  shows "\<exists>overlay. AddGrid_overlay img config = Some overlay"
proof -
  obtain lined where l: "drawLines config \<lparr>Rect = Rect img, Pix = Pix img\<rparr> = Some lined"
    using assms(1) by (simp add: drawLines_result)
  from numberCells_count [where label = "\<lambda>x y n ov. drawLargeNumber ov x y n config"
      and s = lined, OF assms]
  obtain numbered n
    where "numberCells (\<lambda>x y n ov. drawLargeNumber ov x y n config) (CellSize config)
             (MaxX (Rect img)) (MaxY (Rect img)) (lined, 0) = Some (numbered, n)"
    by (auto simp: drawLargeNumber_returns)
  with l show ?thesis by (simp add: AddGrid_overlay_def Let_def)
qed

section \<open>The coordinate mappers: formulas, errors, totality\<close>







text \<open>
  Claim C5, as amended. \<open>CellToPixel\<close> returns an error value exactly when
  \<open>cellIndex < 0\<close> (and then the triple \<open>(0, 0, err)\<close>); for every \<open>cellIndex \<ge> 0\<close>,
  however large, it succeeds, provided \<open>cellSize \<noteq> 0\<close>.
\<close>

theorem CellToPixel_error_iff:
  "(cellIndex < 0 \<longrightarrow>
      CellToPixel cellIndex imageWidth cellSize = Inr (0, 0, Some (InvalidCellNumber cellIndex)))
   \<and> ((\<exists>x y e. CellToPixel cellIndex imageWidth cellSize = Inr (x, y, Some e)) = (cellIndex < 0))
   \<and> (0 \<le> cellIndex \<and> cellSize \<noteq> 0 \<longrightarrow>
        (\<exists>x y. CellToPixel cellIndex imageWidth cellSize = Inr (x, y, None)))"
  by (auto simp: CellToPixel_unfold)
     (auto simp: CellToPixel_def go_div_def go_mod_def and_then_def Let_def split: if_splits)

theorem CellToPixel_error_iff_witness:
  "(- 1 :: int) < 0 \<and> CellToPixel (- 1) 100 50 = Inr (0, 0, Some (InvalidCellNumber (- 1)))
   \<and> (0::int) \<le> 1000000 \<and> (50::int) \<noteq> 0
   \<and> (\<exists>x y. CellToPixel 1000000 100 50 = Inr (x, y, None))
   \<and> \<not> (\<exists>x y e. CellToPixel 1000000 100 50 = Inr (x, y, Some e))"
  using CellToPixel_error_iff [of "- 1" 100 50] CellToPixel_error_iff [of 1000000 100 50]
  by simp

text \<open>
  Claim C5 as stated puts no condition on the cell size: with \<open>cellSize = 0\<close> a call with
  a non-negative index does not succeed, it panics in the first division.
\<close>

theorem CellToPixel_zero_cellSize_counterexample:
  "CellToPixel 0 100 0 = Inl DivideByZero"
  by (simp add: CellToPixel_def go_div_def and_then_def)

text \<open>
  Claim C10. For every \<open>cellSize \<ge> 1\<close> and all values of the other arguments, neither
  mapper panics: every divisor is \<open>cellSize\<close>, the constant 2, or \<open>columnsPerRow\<close>, which
  is never 0.
\<close>

theorem mappers_total:
  assumes "1 \<le> cellSize"
  shows "(\<exists>r. CellToPixel cellIndex imageWidth cellSize = Inr r)
       \<and> (\<exists>n. PixelToCell x y imageWidth cellSize = Inr n)
       \<and> cellSize \<noteq> 0 \<and> columnsPerRow_of imageWidth cellSize \<noteq> 0"
  using assms columnsPerRow_of_nonzero [of imageWidth cellSize]
  by (auto simp: PixelToCell_unfold CellToPixel_def go_div_def go_mod_def and_then_def Let_def)

theorem mappers_total_witness:
  "(1::int) \<le> 1 \<and> (\<exists>r. CellToPixel 5 0 1 = Inr r) \<and> (\<exists>n. PixelToCell (- 3) 4 0 1 = Inr n)
   \<and> columnsPerRow_of 0 1 \<noteq> 0"
  using mappers_total [of 1 5 0 "- 3" 4]
  by simp



section \<open>The renderer: grid lines, degenerate grids, numbering\<close>

text \<open>
  Claim C8. For every \<open>cellSize > 0\<close>, every line width and every canvas with
  \<open>W = Max.X\<close> and \<open>H = Max.Y\<close>, the line-drawing phase returns; a coordinate \<open>(px, py)\<close>
  with \<open>0 \<le> px < W\<close> and \<open>0 \<le> py < H\<close> is written (with \<open>GridColor\<close>, by \<open>Set\<close>) if and only
  if \<open>k * cellSize - lineWidth < px \<le> k * cellSize\<close> for some \<open>k \<ge> 1\<close> with
  \<open>k * cellSize < W\<close>, or the same holds of \<open>py\<close> and \<open>H\<close>; such a pixel of the canvas then
  holds \<open>GridColor\<close>, and every pixel that is not written holds the source pixel.
\<close>

theorem grid_line_placement:
  fixes config :: "'c Config" and overlay :: "'c image"
  assumes cs: "0 < CellSize config"
  defines "W \<equiv> MaxX (Rect overlay)" and "H \<equiv> MaxY (Rect overlay)"
  defines "on_line \<equiv> \<lambda>px py.
             (\<exists>k\<ge>1. k * CellSize config < W \<and> k * CellSize config - LineWidth config < px
                     \<and> px \<le> k * CellSize config)
           \<or> (\<exists>k\<ge>1. k * CellSize config < H \<and> k * CellSize config - LineWidth config < py
                     \<and> py \<le> k * CellSize config)"
  shows "\<exists>lined writes.
           drawLines config overlay = Some lined
         \<and> lineWrites (CellSize config) (LineWidth config) W H = Some writes
         \<and> Rect lined = Rect overlay
         \<and> (\<forall>px py. (px, py) \<in> set writes \<longleftrightarrow>
                        0 \<le> px \<and> px < W \<and> 0 \<le> py \<and> py < H \<and> on_line px py)
         \<and> (\<forall>px py. 0 \<le> px \<and> px < W \<and> 0 \<le> py \<and> py < H
                      \<and> In_rect (px, py) (Rect overlay) \<longrightarrow>
                Pix lined (px, py) =
                  (if on_line px py then GridColor config else Pix overlay (px, py)))
         \<and> (\<forall>p. p \<notin> set writes \<longrightarrow> Pix lined p = Pix overlay p)"
proof -
  let ?ws = "vcoords (CellSize config) (LineWidth config) W H
             @ hcoords (CellSize config) (LineWidth config) W H"
  let ?lined = "fold (\<lambda>(px, py) ov. RGBA_Set ov px py (GridColor config)) ?ws overlay"
  have 1: "drawLines config overlay = Some ?lined"
    using cs unfolding W_def H_def by (rule drawLines_result)
  have 2: "lineWrites (CellSize config) (LineWidth config) W H = Some ?ws"
    using cs by (rule lineWrites_result)
  have 3: "Rect ?lined = Rect overlay" by (rule fold_RGBA_Set_Rect)
  have 4: "(px, py) \<in> set ?ws \<longleftrightarrow> 0 \<le> px \<and> px < W \<and> 0 \<le> py \<and> py < H \<and> on_line px py"
    for px py
  proof -
    have v: "k * CellSize config < W \<Longrightarrow> px \<le> k * CellSize config \<Longrightarrow> px < W" for k
      by simp
    have h: "k * CellSize config < H \<Longrightarrow> py \<le> k * CellSize config \<Longrightarrow> py < H" for k
      by simp
    show ?thesis
      using cs unfolding on_line_def set_append Un_iff in_vcoords [OF cs] in_hcoords [OF cs]
      by (auto dest: v h)
  qed
  have 5: "Pix ?lined p = (if p \<in> set ?ws \<and> In_rect p (Rect overlay) then GridColor config
                   else Pix overlay p)" for p
    by (rule fold_RGBA_Set_Pix)
  have 6: "Pix ?lined (px, py) = (if on_line px py then GridColor config else Pix overlay (px, py))"
    if "0 \<le> px \<and> px < W \<and> 0 \<le> py \<and> py < H \<and> In_rect (px, py) (Rect overlay)" for px py
  proof -
    from that have "(px, py) \<in> set ?ws \<longleftrightarrow> on_line px py" by (simp only: 4) simp
    with that show ?thesis by (subst 5) simp
  qed
  have 7: "Pix ?lined p = Pix overlay p" if "p \<notin> set ?ws" for p
    using that by (subst 5) simp
  from 1 2 3 4 6 7 show ?thesis by blast
qed

theorem grid_line_placement_witness:
  "0 < CellSize DefaultConfig
   \<and> (0::int) \<le> 99 \<and> (99::int) < 250 \<and> (0::int) \<le> 50 \<and> (50::int) < 200
   \<and> In_rect (99, 50) \<lparr>MinX = 0, MinY = 0, MaxX = 250, MaxY = 200\<rparr>
   \<and> (\<exists>lined. drawLines DefaultConfig
                 \<lparr>Rect = \<lparr>MinX = 0, MinY = 0, MaxX = 250, MaxY = 200\<rparr>,
                  Pix = \<lambda>p. RGBA 0 0 0 255\<rparr> = Some lined
        \<and> Pix lined (99, 50) = RGBA 0 255 255 100
        \<and> Pix lined (98, 50) = RGBA 0 0 0 255)"
proof -
  let ?ov = "\<lparr>Rect = \<lparr>MinX = 0, MinY = 0, MaxX = 250, MaxY = 200\<rparr>,
              Pix = \<lambda>p. RGBA 0 0 0 255\<rparr> :: color image"
  have cs: "0 < CellSize DefaultConfig" by (simp add: DefaultConfig_def)
  have a: "\<exists>k\<ge>1. k * 100 < (250::int) \<and> k * 100 - 2 < 99 \<and> 99 \<le> k * 100"
    by (rule exI [of _ 1]) simp
  have b: "\<not> (\<exists>k\<ge>1. k * 100 < (250::int) \<and> k * 100 - 2 < 98 \<and> 98 \<le> k * 100)" by arith
  have c: "\<not> (\<exists>k\<ge>1. k * 100 < (200::int) \<and> k * 100 - 2 < 50 \<and> 50 \<le> k * 100)" by arith
  from grid_line_placement [OF cs, of ?ov] obtain lined
    where l: "drawLines DefaultConfig ?ov = Some lined"
      and p: "\<forall>px py. 0 \<le> px \<and> px < MaxX (Rect ?ov) \<and> 0 \<le> py \<and> py < MaxY (Rect ?ov)
                \<and> In_rect (px, py) (Rect ?ov) \<longrightarrow>
                Pix lined (px, py) =
                  (if (\<exists>k\<ge>1. k * CellSize DefaultConfig < MaxX (Rect ?ov)
                           \<and> k * CellSize DefaultConfig - LineWidth DefaultConfig < px
                           \<and> px \<le> k * CellSize DefaultConfig)
                      \<or> (\<exists>k\<ge>1. k * CellSize DefaultConfig < MaxY (Rect ?ov)
                           \<and> k * CellSize DefaultConfig - LineWidth DefaultConfig < py
                           \<and> py \<le> k * CellSize DefaultConfig)
                   then GridColor DefaultConfig else Pix ?ov (px, py))"
    by blast
  have "Pix lined (99, 50) = RGBA 0 255 255 100"
    using p [rule_format, of 99 50] a by (simp add: In_rect_def DefaultConfig_def)
  moreover have "Pix lined (98, 50) = RGBA 0 0 0 255"
    using p [rule_format, of 98 50] b c by (simp add: In_rect_def DefaultConfig_def)
  ultimately show ?thesis using l cs by (simp add: In_rect_def)
qed

text \<open>
  Claim C6, as amended. For every image with \<open>width, height > 0\<close> and every
  \<open>cellSize \<ge> max(width, height)\<close> the numbering loop enumerates exactly one cell, cell 0,
  and asks for its label when \<open>cellSize / 2\<close> is below both the width and the height; the
  label is then centred at \<open>(cellSize / 2, cellSize / 2)\<close>, the centre of the cell.
\<close>

theorem degenerate_grid:
  assumes "0 < width" and "0 < height" and "max width height \<le> cellSize"
  shows "labelCalls cellSize width height =
           Some (if cellSize div 2 < width \<and> cellSize div 2 < height
                 then [(cellSize div 2, cellSize div 2, 0)] else [], 1)"
proof -
  from assms have cs: "0 < cellSize" by simp
  have C: "\<lceil>real_of_int width / real_of_int cellSize\<rceil> = 1"
    using assms by (intro ceiling_div_one) simp_all
  have R: "\<lceil>real_of_int height / real_of_int cellSize\<rceil> = 1"
    using assms by (intro ceiling_div_one) simp_all
  show ?thesis
    using cs by (simp add: labelCalls_fold C R tquot_nonneg)
qed

theorem degenerate_grid_witness:
  "(0::int) < 100 \<and> (0::int) < 60 \<and> max (100::int) 60 \<le> 100
   \<and> labelCalls 100 100 60 = Some ([(50, 50, 0)], 1)"
  using degenerate_grid [of 100 60 100] by simp

text \<open>
  Claim C6 as stated puts the label at the centre of the image: on a 100 by 100 image
  with cell size 150 it is drawn at \<open>(75, 75)\<close>, not at \<open>(50, 50)\<close>.
\<close>

theorem degenerate_grid_counterexample:
  "(0::int) < 100 \<and> max (100::int) 100 \<le> 150
   \<and> labelCalls 150 100 100 = Some ([(75, 75, 0)], 1)
   \<and> (75::int, 75::int) \<noteq> (100 div 2, 100 div 2)"
  by (simp add: labelCalls_fold tquot_def upto.simps)

text \<open>
  Claim C1 at a failing input. On a 250 by 200 image with cell size 100 the renderer
  enumerates three columns, so the label drawn at \<open>(50, 150)\<close> is 3, while
  \<open>PixelToCell\<close> counts two columns and answers 2. On the 800 by 600 image with cell size
  150 of the repository's example the label drawn at \<open>(75, 225)\<close> is 6, but
  \<open>PixelToCell(75, 225, 800, 150)\<close> is 5 and \<open>CellToPixel(6, 800, 150)\<close> is \<open>(225, 225)\<close>,
  where the label drawn is 7.
\<close>

theorem numbering_mismatch:
  "labelCalls 100 250 200 = Some ([(50, 50, 0), (150, 50, 1), (50, 150, 3), (150, 150, 4)], 6)
   \<and> PixelToCell 50 150 250 100 = Inr 2
   \<and> (case labelCalls 150 800 600 of
         Some (calls, n) \<Rightarrow> (75, 225, 6) \<in> set calls \<and> (225, 225, 7) \<in> set calls
       | None \<Rightarrow> False)
   \<and> PixelToCell 75 225 800 150 = Inr 5
   \<and> CellToPixel 6 800 150 = Inr (225, 225, None)"
  by (simp add: labelCalls_fold PixelToCell_unfold CellToPixel_unfold columnsPerRow_of_def
      tquot_def trem_def upto.simps)

end
